theory Spec2Isabelle
  imports Complex_Main "HOL-Library.Log_Nat"
begin

section \<open>The vendored charting engine of the dashboard (vendor/recharts.tsx)\<close>

text \<open>
  The engine is a set of pure functions over JavaScript values. A number is a real or one
  of the three non-finite values of the language; the sign of zero is not modelled. The
  operators \<open>js_add\<close>, \<open>js_mul\<close>, \<open>js_div\<close> compute the exact result; \<open>round64\<close> rounds a
  real to the nearest binary64 value, as the language does after every operation and
  when it reads a numeric literal. Array indices and lengths are natural numbers.
\<close>

subsection \<open>JavaScript numbers\<close>

datatype number = Fin real | PosInf | NegInf | NaN

fun Number_isFinite :: "number \<Rightarrow> bool" where
  "Number_isFinite (Fin _) = True"
| "Number_isFinite _ = False"

fun js_neg :: "number \<Rightarrow> number" where
  "js_neg (Fin a) = Fin (- a)"
| "js_neg PosInf = NegInf"
| "js_neg NegInf = PosInf"
| "js_neg NaN = NaN"

text \<open>\<open>a + b\<close> on numbers: opposite infinities cancel to NaN.\<close>

fun js_add :: "number \<Rightarrow> number \<Rightarrow> number" where
  "js_add NaN _ = NaN"
| "js_add _ NaN = NaN"
| "js_add (Fin a) (Fin b) = Fin (a + b)"
| "js_add PosInf NegInf = NaN"
| "js_add NegInf PosInf = NaN"
| "js_add PosInf _ = PosInf"
| "js_add _ PosInf = PosInf"
| "js_add NegInf _ = NegInf"
| "js_add _ NegInf = NegInf"

definition js_sub :: "number \<Rightarrow> number \<Rightarrow> number" where
  "js_sub a b = js_add a (js_neg b)"

text \<open>The sign of a number that is not NaN: \<open>-1\<close>, \<open>0\<close> or \<open>1\<close>.\<close>

fun js_sign :: "number \<Rightarrow> int" where
  "js_sign (Fin a) = (if a < 0 then - 1 else if a = 0 then 0 else 1)"
| "js_sign PosInf = 1"
| "js_sign NegInf = - 1"
| "js_sign NaN = 0"

definition signed_inf :: "int \<Rightarrow> number" where
  "signed_inf s = (if s < 0 then NegInf else PosInf)"

text \<open>\<open>a * b\<close>: an infinity times zero is NaN, otherwise the signs multiply.\<close>

fun js_mul :: "number \<Rightarrow> number \<Rightarrow> number" where
  "js_mul NaN _ = NaN"
| "js_mul _ NaN = NaN"
| "js_mul (Fin a) (Fin b) = Fin (a * b)"
| "js_mul a b = (if js_sign a * js_sign b = 0 then NaN else signed_inf (js_sign a * js_sign b))"

text \<open>
  \<open>a / b\<close>: a finite dividend over an infinity is zero, infinity over infinity and
  zero over zero are NaN, a non-zero dividend over zero is an infinity (the zero taken
  as positive).
\<close>

fun js_div :: "number \<Rightarrow> number \<Rightarrow> number" where
  "js_div NaN _ = NaN"
| "js_div _ NaN = NaN"
| "js_div (Fin a) (Fin b) =
     (if b = 0 then (if a = 0 then NaN else signed_inf (js_sign (Fin a))) else Fin (a / b))"
| "js_div (Fin a) _ = Fin 0"
| "js_div a (Fin b) = signed_inf (js_sign a * (if b < 0 then - 1 else 1))"
| "js_div _ _ = NaN"

text \<open>The relational operators: every comparison with NaN is false.\<close>

fun js_le :: "number \<Rightarrow> number \<Rightarrow> bool" where
  "js_le NaN _ = False"
| "js_le _ NaN = False"
| "js_le (Fin a) (Fin b) = (a \<le> b)"
| "js_le NegInf _ = True"
| "js_le _ PosInf = True"
| "js_le _ _ = False"

fun js_lt :: "number \<Rightarrow> number \<Rightarrow> bool" where
  "js_lt NaN _ = False"
| "js_lt _ NaN = False"
| "js_lt (Fin a) (Fin b) = (a < b)"
| "js_lt PosInf _ = False"
| "js_lt _ NegInf = False"
| "js_lt _ _ = True"

definition js_gt :: "number \<Rightarrow> number \<Rightarrow> bool" where
  "js_gt a b = js_lt b a"

text \<open>\<open>Math.max\<close>: NaN if any argument is NaN, \<open>-Infinity\<close> without arguments.\<close>

definition max2 :: "number \<Rightarrow> number \<Rightarrow> number" where
  "max2 a b = (if a = NaN \<or> b = NaN then NaN else if js_le a b then b else a)"

definition Math_max :: "number list \<Rightarrow> number" where
  "Math_max xs = foldl max2 NegInf xs"

text \<open>\<open>Math.round\<close> rounds to the nearest integer, halves towards \<open>+Infinity\<close>.\<close>

fun Math_round :: "number \<Rightarrow> number" where
  "Math_round (Fin a) = Fin (of_int \<lfloor>a + 1 / 2\<rfloor>)"
| "Math_round n = n"

subsection \<open>Rounding to binary64\<close>

text \<open>
  The binary exponent of a positive real: the \<open>e\<close> with \<open>2^e \<le> x < 2^(e+1)\<close>, from the bit
  length of the integer part of \<open>x\<close>, or of \<open>1 / x\<close> below one.
\<close>

definition expo :: "real \<Rightarrow> int" where
  "expo x = (if 1 \<le> x then bitlen \<lfloor>x\<rfloor> - 1 else - bitlen (\<lceil>1 / x\<rceil> - 1))"

text \<open>Rounding to the nearest integer, ties to the even one.\<close>

definition rne :: "real \<Rightarrow> int" where
  "rne y =
     (let f = \<lfloor>y\<rfloor>; d = y - of_int f
      in if d < 1 / 2 then f else if 1 / 2 < d then f + 1 else if even f then f else f + 1)"

text \<open>
  A double has 53 significant bits: a positive real with exponent \<open>e\<close> is rounded to a
  multiple of \<open>2^(e - 52)\<close>, and to a multiple of \<open>2^(-1074)\<close> below the normal range
  (\<open>e < -1022\<close>).
\<close>

definition quantum :: "real \<Rightarrow> real" where
  "quantum x = 2 powi (max (expo x) (- 1022) - 52)"

definition mag :: "real \<Rightarrow> real" where
  "mag x = of_int (rne (x / quantum x)) * quantum x"

text \<open>Round to nearest, ties to even; a result of \<open>2^1024\<close> or more overflows to infinity.\<close>

definition round64 :: "real \<Rightarrow> number" where
  "round64 x =
     (if x = 0 then Fin 0
      else let y = mag \<bar>x\<bar>
           in if 2 ^ 1024 \<le> y then (if x < 0 then NegInf else PosInf)
              else Fin (if x < 0 then - y else y))"


subsection \<open>Canvas constants\<close>

definition CHART_WIDTH :: number where "CHART_WIDTH = Fin 960"
definition CHART_HEIGHT :: number where "CHART_HEIGHT = Fin 320"

record padding =
  top :: number
  right :: number
  bottom :: number
  left :: number

definition CHART_PADDING :: padding where
  "CHART_PADDING = \<lparr>top = Fin 20, right = Fin 20, bottom = Fin 52, left = Fin 56\<rparr>"

definition X_LABEL_LIMIT :: nat where "X_LABEL_LIMIT = 6"

subsection \<open>Coordinate mapper\<close>

definition chartY :: "number \<Rightarrow> number \<Rightarrow> number" where
  "chartY value maxValue =
     (let usableHeight = js_sub (js_sub CHART_HEIGHT (top CHART_PADDING)) (bottom CHART_PADDING)
      in if js_le maxValue (Fin 0) then js_sub CHART_HEIGHT (bottom CHART_PADDING)
         else js_sub (js_sub CHART_HEIGHT (bottom CHART_PADDING))
                (js_mul (js_div value maxValue) usableHeight))"

text \<open>\<open>chartX\<close> is only ever called with an array index and an array length.\<close>

definition chartX :: "nat \<Rightarrow> nat \<Rightarrow> number" where
  "chartX index tot =
     (if tot \<le> 1 then left CHART_PADDING
      else let usableWidth = js_sub (js_sub CHART_WIDTH (left CHART_PADDING)) (right CHART_PADDING)
           in js_add (left CHART_PADDING)
                (js_mul (js_div (Fin (real index)) (Fin (real (tot - 1)))) usableWidth))"


subsection \<open>JavaScript values and their conversions\<close>

text \<open>
  A field of a datum has type \<open>unknown\<close>. The values modelled are undefined (also what
  reading a missing key gives), null, booleans, numbers, strings, symbols (with their
  description) and plain objects: objects whose prototype is \<open>Object.prototype\<close>, with
  their own data properties, as \<open>JSON.parse\<close> builds them.
  There are no function values. A character stands for one code unit of the string.
\<close>

datatype jsval =
    JUndefined
  | JNull
  | JBoolean bool
  | JNumber number
  | JString string
  | JSymbol string
  | JObject "(string \<times> jsval) list"

datatype error = TypeError

type_synonym 'a result = "error + 'a"

type_synonym datum = "(string \<times> jsval) list"

text \<open>\<open>row[key]\<close>: a missing key reads as undefined.\<close>

definition get_field :: "datum \<Rightarrow> string \<Rightarrow> jsval" where
  "get_field row key = (case map_of row key of None \<Rightarrow> JUndefined | Some v \<Rightarrow> v)"

paragraph \<open>Strings to numbers (the StringNumericLiteral grammar)\<close>

definition is_ws :: "char \<Rightarrow> bool" where
  "is_ws c = (of_char c \<in> set [9, 10, 11, 12, 13, 32, 160 :: nat])"

definition trim :: "string \<Rightarrow> string" where
  "trim s = rev (dropWhile is_ws (rev (dropWhile is_ws s)))"

definition digit_val :: "char \<Rightarrow> nat option" where
  "digit_val c =
     (let k = of_char c :: nat
      in if 48 \<le> k \<and> k \<le> 57 then Some (k - 48)
         else if 97 \<le> k \<and> k \<le> 102 then Some (k - 87)
         else if 65 \<le> k \<and> k \<le> 70 then Some (k - 55)
         else None)"

definition is_digit :: "nat \<Rightarrow> char \<Rightarrow> bool" where
  "is_digit base c = (case digit_val c of None \<Rightarrow> False | Some d \<Rightarrow> d < base)"

definition digits_value :: "nat \<Rightarrow> string \<Rightarrow> nat" where
  "digits_value base ds =
     foldl (\<lambda>acc c. acc * base + (case digit_val c of None \<Rightarrow> 0 | Some d \<Rightarrow> d)) 0 ds"

definition all_digits :: "nat \<Rightarrow> string \<Rightarrow> bool" where
  "all_digits base ds = (ds \<noteq> [] \<and> list_all (is_digit base) ds)"

text \<open>\<open>0x\<close>, \<open>0o\<close> and \<open>0b\<close> literals: no sign, at least one digit.\<close>

fun NonDecimalIntegerLiteral :: "string \<Rightarrow> nat option" where
  "NonDecimalIntegerLiteral (c0 # c1 # ds) =
     (let base = (if c1 = CHR ''x'' \<or> c1 = CHR ''X'' then 16
                  else if c1 = CHR ''o'' \<or> c1 = CHR ''O'' then 8
                  else if c1 = CHR ''b'' \<or> c1 = CHR ''B'' then 2 else 0 :: nat)
      in if c0 = CHR ''0'' \<and> base \<noteq> 0 \<and> all_digits base ds
         then Some (digits_value base ds) else None)"
| "NonDecimalIntegerLiteral _ = None"

text \<open>An optional sign in front of the rest of the text.\<close>

fun split_sign :: "string \<Rightarrow> bool \<times> string" where
  "split_sign (c # cs) =
     (if c = CHR ''+'' then (False, cs) else if c = CHR ''-'' then (True, cs)
      else (False, c # cs))"
| "split_sign [] = (False, [])"

text \<open>The exponent part: nothing, or \<open>e\<close>/\<open>E\<close>, an optional sign and digits.\<close>

fun ExponentPart :: "string \<Rightarrow> int option" where
  "ExponentPart [] = Some 0"
| "ExponentPart (c # cs) =
     (if c = CHR ''e'' \<or> c = CHR ''E''
      then (case split_sign cs of (neg, ds) \<Rightarrow>
              if all_digits 10 ds
              then Some (if neg then - int (digits_value 10 ds) else int (digits_value 10 ds))
              else None)
      else None)"

definition scale10 :: "real \<Rightarrow> int \<Rightarrow> real" where
  "scale10 m e = (if 0 \<le> e then m * 10 ^ nat e else m / 10 ^ nat (- e))"

text \<open>
  Digits, an optional fraction and an optional exponent, or the word Infinity. The
  number is the double nearest to the value the digits denote.
\<close>

definition StrUnsignedDecimalLiteral :: "string \<Rightarrow> number option" where
  "StrUnsignedDecimalLiteral u =
     (if u = ''Infinity'' then Some PosInf
      else let ip = takeWhile (is_digit 10) u;
               r1 = dropWhile (is_digit 10) u;
               dot = (r1 \<noteq> [] \<and> hd r1 = CHR ''.'');
               fp = (if dot then takeWhile (is_digit 10) (tl r1) else []);
               r2 = (if dot then dropWhile (is_digit 10) (tl r1) else r1)
           in if ip = [] \<and> fp = [] then None
              else (case ExponentPart r2 of
                      None \<Rightarrow> None
                    | Some e \<Rightarrow>
                        Some (round64 (scale10 (real (digits_value 10 ip)
                                                + real (digits_value 10 fp) / 10 ^ length fp) e))))"

definition StrDecimalLiteral :: "string \<Rightarrow> number option" where
  "StrDecimalLiteral t =
     (case split_sign t of (neg, u) \<Rightarrow>
        (case StrUnsignedDecimalLiteral u of
           None \<Rightarrow> None
         | Some v \<Rightarrow> Some (if neg then js_neg v else v)))"

definition StringToNumber :: "string \<Rightarrow> number" where
  "StringToNumber s =
     (let t = trim s
      in if t = [] then Fin 0
         else (case NonDecimalIntegerLiteral t of
                 Some n \<Rightarrow> round64 (real n)
               | None \<Rightarrow> (case StrDecimalLiteral t of Some v \<Rightarrow> v | None \<Rightarrow> NaN)))"

paragraph \<open>\<open>Number(value)\<close>\<close>

text \<open>
  Undefined is NaN, null is zero, a symbol raises TypeError. An object is first turned
  into a primitive by its \<open>valueOf\<close> and then its \<open>toString\<close> method. An own property
  of either name holds data, which cannot be called, and is passed over; the inherited
  \<open>valueOf\<close> returns the object itself, no primitive; the inherited \<open>toString\<close> returns
  \<open>[object Object]\<close>, which is not a numeric literal. So an object with an own
  \<open>toString\<close> property has no primitive value and the conversion raises TypeError.
\<close>

fun js_Number :: "jsval \<Rightarrow> number result" where
  "js_Number JUndefined = Inr NaN"
| "js_Number JNull = Inr (Fin 0)"
| "js_Number (JBoolean b) = Inr (Fin (if b then 1 else 0))"
| "js_Number (JNumber n) = Inr n"
| "js_Number (JString s) = Inr (StringToNumber s)"
| "js_Number (JSymbol _) = Inl TypeError"
| "js_Number (JObject kvs) =
     (if ''toString'' \<in> set (map fst kvs) then Inl TypeError
      else Inr (StringToNumber ''[object Object]''))"

text \<open>The operator \<open>a * b\<close> on arbitrary operands converts both to numbers first.\<close>

definition js_times :: "jsval \<Rightarrow> jsval \<Rightarrow> number result" where
  "js_times a b =
     (case js_Number a of
        Inl e \<Rightarrow> Inl e
      | Inr x \<Rightarrow> (case js_Number b of Inl e \<Rightarrow> Inl e | Inr y \<Rightarrow> Inr (js_mul x y)))"

subsection \<open>Numeric coercion\<close>

definition toNumber :: "jsval \<Rightarrow> number result" where
  "toNumber v =
     (case js_Number v of
        Inl e \<Rightarrow> Inl e
      | Inr parsed \<Rightarrow> Inr (if Number_isFinite parsed then parsed else Fin 0))"

subsection \<open>Series extraction\<close>

record series_props =
  dataKey :: string
  stroke :: "string option"
  fill :: "string option"
  fillOpacity :: "number option"
  name :: "string option"

text \<open>
  A child of a chart, as \<open>Children.forEach\<close> hands it to the callback: a valid element
  with the \<open>displayName\<close> of its type (if the type has one) and its props, or anything
  else (text, null, booleans).
\<close>

datatype 'p child = Element "string option" 'p | NotElement

definition extractSeries :: "'p child list \<Rightarrow> string \<Rightarrow> 'p list" where
  "extractSeries children typeName =
     foldl (\<lambda>series ch.
              (case ch of
                 NotElement \<Rightarrow> series
               | Element displayName props \<Rightarrow>
                   if displayName = Some typeName then series @ [props] else series))
       [] children"

subsection \<open>Domain calculation\<close>

text \<open>Mapping a function that may raise over an array: the first exception ends it.\<close>

fun traverse :: "('a \<Rightarrow> 'b result) \<Rightarrow> 'a list \<Rightarrow> 'b list result" where
  "traverse f [] = Inr []"
| "traverse f (x # xs) =
     (case f x of
        Inl e \<Rightarrow> Inl e
      | Inr y \<Rightarrow> (case traverse f xs of Inl e \<Rightarrow> Inl e | Inr ys \<Rightarrow> Inr (y # ys)))"

text \<open>
  \<open>Math.max(1, ...data.flatMap((row) => series.map((s) => toNumber(row[s.dataKey]))))\<close>,
  the expression LineChart, AreaChart and BarChart all compute as \<open>maxValue\<close>.
\<close>

definition maxValue_of :: "datum list \<Rightarrow> series_props list \<Rightarrow> number result" where
  "maxValue_of data series =
     (case traverse (\<lambda>row. traverse (\<lambda>s. toNumber (get_field row (dataKey s))) series) data of
        Inl e \<Rightarrow> Inl e
      | Inr vss \<Rightarrow> Inr (Math_max (Fin 1 # concat vss)))"

subsection \<open>Axis ticks and labels\<close>

definition shouldRenderTick :: "nat \<Rightarrow> nat \<Rightarrow> bool" where
  "shouldRenderTick index tot =
     (if tot \<le> X_LABEL_LIMIT then True
      else let step = nat \<lceil>real tot / real X_LABEL_LIMIT\<rceil>
           in index mod step = 0 \<or> index = tot - 1)"

paragraph \<open>\<open>String(value)\<close>\<close>

definition digit_char :: "nat \<Rightarrow> char" where
  "digit_char d = ''0123456789'' ! d"

fun nat_digits :: "nat \<Rightarrow> string" where
  "nat_digits n = (if n < 10 then [digit_char n] else nat_digits (n div 10) @ [digit_char (n mod 10)])"

declare nat_digits.simps [simp del]

text \<open>
  Integers below \<open>10^21\<close> print as their decimal digits. The digits of any other finite
  number depend on its binary representation; \<open>fmt\<close> stands for that conversion.
\<close>

fun NumberToString :: "(real \<Rightarrow> string) \<Rightarrow> number \<Rightarrow> string" where
  "NumberToString fmt NaN = ''NaN''"
| "NumberToString fmt PosInf = ''Infinity''"
| "NumberToString fmt NegInf = ''-Infinity''"
| "NumberToString fmt (Fin r) =
     (if r = of_int \<lfloor>r\<rfloor> \<and> \<bar>r\<bar> < 10 ^ 21
      then (if r < 0 then ''-'' @ nat_digits (nat (- \<lfloor>r\<rfloor>)) else nat_digits (nat \<lfloor>r\<rfloor>))
      else fmt r)"

text \<open>
  The strings of the values; an object prints through the inherited \<open>toString\<close>. (An
  object that shadows \<open>toString\<close> has no string either: \<open>String\<close> raises for it as
  \<open>Number\<close> does. That case is left out of this function.)
\<close>

fun js_String :: "(real \<Rightarrow> string) \<Rightarrow> jsval \<Rightarrow> string" where
  "js_String fmt JUndefined = ''undefined''"
| "js_String fmt JNull = ''null''"
| "js_String fmt (JBoolean b) = (if b then ''true'' else ''false'')"
| "js_String fmt (JNumber n) = NumberToString fmt n"
| "js_String fmt (JString s) = s"
| "js_String fmt (JSymbol d) = ''Symbol('' @ d @ '')''"
| "js_String fmt (JObject _) = ''[object Object]''"

text \<open>\<open>a ?? b\<close> is \<open>b\<close> exactly when \<open>a\<close> is null or undefined.\<close>

definition coalesce :: "jsval \<Rightarrow> jsval \<Rightarrow> jsval" where
  "coalesce a b = (if a = JUndefined \<or> a = JNull then b else a)"

definition getBucketLabel :: "(real \<Rightarrow> string) \<Rightarrow> datum \<Rightarrow> nat \<Rightarrow> string" where
  "getBucketLabel fmt row index =
     (let raw = js_String fmt
                  (coalesce (coalesce (get_field row ''label'') (get_field row ''bucket_start''))
                     (JNumber (Fin (real (index + 1)))))
      in if length raw > 10 then take 10 raw @ ''...'' else raw)"

text \<open>
  The horizontal part of \<open>renderAxes\<close>: per data point either nothing or a tick at
  \<open>chartX\<close> with its label.
\<close>

definition xTicks :: "(real \<Rightarrow> string) \<Rightarrow> datum list \<Rightarrow> (number \<times> string) option list" where
  "xTicks fmt data =
     map (\<lambda>index.
            if \<not> shouldRenderTick index (length data) then None
            else Some (chartX index (length data), getBucketLabel fmt (data ! index) index))
       [0..<length data]"

subsection \<open>Bar renderer\<close>

definition usableWidth :: number where
  "usableWidth = js_sub (js_sub CHART_WIDTH (left CHART_PADDING)) (right CHART_PADDING)"

definition groupWidth :: "datum list \<Rightarrow> number" where
  "groupWidth data =
     (if length data > 0 then js_div usableWidth (Fin (real (length data))) else usableWidth)"

definition barWidth :: "datum list \<Rightarrow> 'p list \<Rightarrow> number" where
  "barWidth data bars =
     (if length bars > 0
      then Math_max [js_div (groupWidth data) (Fin (real (length bars + 1))), Fin 8]
      else Fin 12)"

definition baseline :: number where
  "baseline = js_sub CHART_HEIGHT (bottom CHART_PADDING)"

text \<open>The constant \<open>CHART_PADDING\<close> as the object it is when it is an operand.\<close>

definition padding_object :: "padding \<Rightarrow> jsval" where
  "padding_object p =
     JObject [(''top'', JNumber (top p)), (''right'', JNumber (right p)),
              (''bottom'', JNumber (bottom p)), (''left'', JNumber (left p))]"

text \<open>
  \<open>const height = maxValue > 0
     ? ((CHART_HEIGHT - CHART_PADDING * 2) * value) / maxValue : 0\<close>
\<close>

definition bar_height :: "number \<Rightarrow> number \<Rightarrow> number result" where
  "bar_height value maxValue =
     (if js_gt maxValue (Fin 0)
      then (case js_times (padding_object CHART_PADDING) (JNumber (Fin 2)) of
              Inl e \<Rightarrow> Inl e
            | Inr p2 \<Rightarrow> Inr (js_div (js_mul (js_sub CHART_HEIGHT p2) value) maxValue))
      else Inr (Fin 0))"

record bar_label =
  label_x :: number
  label_y :: number
  label_text :: number

record bar_geom =
  rect_x :: number
  rect_y :: number
  rect_width :: number
  rect_height :: number
  value_label :: "bar_label option"

text \<open>The body of the inner callback: one rectangle and, for a positive value, its label.\<close>

definition bar_cell ::
  "datum list \<Rightarrow> series_props list \<Rightarrow> number \<Rightarrow> nat \<Rightarrow> datum \<Rightarrow> nat \<Rightarrow> series_props
   \<Rightarrow> bar_geom result" where
  "bar_cell data bars maxValue dataIndex row barIndex bar =
     (case toNumber (get_field row (dataKey bar)) of
        Inl e \<Rightarrow> Inl e
      | Inr value \<Rightarrow>
          (case bar_height value maxValue of
             Inl e \<Rightarrow> Inl e
           | Inr height \<Rightarrow>
               (let x = js_add
                          (js_add
                             (js_add (left CHART_PADDING)
                                (js_mul (Fin (real dataIndex)) (groupWidth data)))
                             (js_mul (Fin (real barIndex)) (js_add (barWidth data bars) (Fin 4))))
                          (Fin 2);
                    y = js_sub baseline height
                in Inr \<lparr>rect_x = x, rect_y = y, rect_width = barWidth data bars,
                        rect_height = Math_max [height, Fin 0],
                        value_label =
                          (if js_gt value (Fin 0)
                           then Some \<lparr>label_x = js_add x (js_div (barWidth data bars) (Fin 2)),
                                      label_y = Math_max [js_sub y (Fin 8),
                                                          js_add (top CHART_PADDING) (Fin 12)],
                                      label_text = Math_round value\<rparr>
                           else None)\<rparr>)))"

definition BarChart :: "datum list \<Rightarrow> series_props child list \<Rightarrow> bar_geom list list result" where
  "BarChart data children =
     (let bars = extractSeries children ''RechartsBar''
      in (case maxValue_of data bars of
            Inl e \<Rightarrow> Inl e
          | Inr maxValue \<Rightarrow>
              traverse
                (\<lambda>(dataIndex, row).
                   traverse (\<lambda>(barIndex, bar). bar_cell data bars maxValue dataIndex row barIndex bar)
                     (enumerate 0 bars))
                (enumerate 0 data)))"

subsection \<open>Reference notions used in the statements\<close>

text \<open>
  What the series extractor is specified to keep of one declared child: the props of an
  element whose tag is the expected category, nothing of any other child.
\<close>

definition declared_as :: "string \<Rightarrow> 'p child \<Rightarrow> 'p option" where
  "declared_as typeName ch =
     (case ch of Element tag props \<Rightarrow> if tag = Some typeName then Some props else None
      | NotElement \<Rightarrow> None)"

text \<open>A series on the field \<open>v\<close> without styling, for the worked examples.\<close>

definition series_v :: series_props where
  "series_v = \<lparr>dataKey = ''v'', stroke = None, fill = None, fillOpacity = None, name = None\<rparr>"

section \<open>Properties\<close>

subsection \<open>Rounding to binary64\<close>

lemma rne_between: "\<lfloor>y\<rfloor> \<le> rne y \<and> rne y \<le> \<lfloor>y\<rfloor> + 1"
  by (simp add: rne_def Let_def)

lemma rne_of_int: "rne (of_int k) = k"
  by (simp add: rne_def Let_def)

lemma rne_ge: "of_int k \<le> y \<Longrightarrow> k \<le> rne y"
proof -
  assume "of_int k \<le> y"
  then have "k \<le> \<lfloor>y\<rfloor>" by (simp add: le_floor_iff)
  with rne_between [of y] show ?thesis by linarith
qed

lemma rne_le: "y \<le> of_int k \<Longrightarrow> rne y \<le> k"
proof (cases "y = of_int k")
  case True
  then show ?thesis by (simp add: rne_of_int)
next
  case False
  assume "y \<le> of_int k"
  with False have "y < of_int k" by simp
  then have "\<lfloor>y\<rfloor> < k" by (simp add: floor_less_iff)
  with rne_between [of y] show ?thesis by linarith
qed

lemma expo_bounds_ge1:
  assumes "1 \<le> x"
  shows "2 powi expo x \<le> x \<and> x < 2 powi (expo x + 1)"
proof -
  let ?n = "\<lfloor>x\<rfloor>"
  have n: "0 < ?n" using assms by simp
  from bitlen_bounds [OF n] have lo: "2 ^ nat (bitlen ?n - 1) \<le> ?n" and hi: "?n < 2 ^ nat (bitlen ?n)"
    by blast+
  have b1: "1 \<le> bitlen ?n" using n by (simp add: bitlen_alt_def)
  have e: "expo x = bitlen ?n - 1" using assms by (simp add: expo_def)
  have "real_of_int (2 ^ nat (bitlen ?n - 1)) \<le> real_of_int ?n"
    using lo by (simp only: of_int_le_iff)
  also have "\<dots> \<le> x" by simp
  finally have 1: "2 powi (bitlen ?n - 1) \<le> x"
    using b1 by (simp add: power_int_nonneg_exp)
  from hi have "?n + 1 \<le> 2 ^ nat (bitlen ?n)" by simp
  then have "real_of_int (?n + 1) \<le> real_of_int (2 ^ nat (bitlen ?n))"
    by (simp only: of_int_le_iff)
  moreover have "x < real_of_int (?n + 1)" by simp
  ultimately have "x < real_of_int (2 ^ nat (bitlen ?n))" by linarith
  then have 2: "x < 2 powi (bitlen ?n)"
    using b1 by (simp add: power_int_nonneg_exp)
  show ?thesis using 1 2 e by simp
qed

lemma expo_bounds_lt1:
  assumes "0 < x" "x < 1"
  shows "2 powi expo x \<le> x \<and> x < 2 powi (expo x + 1)"
proof -
  let ?y = "1 / x"
  let ?n = "\<lceil>?y\<rceil> - 1"
  let ?b = "bitlen ?n"
  have y1: "1 < ?y" using assms by simp
  then have "1 < \<lceil>?y\<rceil>" by (simp only: less_ceiling_iff of_int_1)
  then have n: "0 < ?n" by simp
  from bitlen_bounds [OF n] have lo: "2 ^ nat (?b - 1) \<le> ?n" and hi: "?n < 2 ^ nat ?b"
    by blast+
  have b1: "1 \<le> ?b" using n by (simp add: bitlen_alt_def)
  have e: "expo x = - ?b" using assms by (simp add: expo_def)
  have n_lt: "real_of_int ?n < ?y" by linarith
  have n_ge: "?y \<le> real_of_int ?n + 1" by simp
  have "real_of_int (2 ^ nat (?b - 1)) \<le> real_of_int ?n"
    using lo by (simp only: of_int_le_iff)
  with n_lt have "2 ^ nat (?b - 1) < ?y" by simp
  then have "x * 2 ^ nat (?b - 1) < 1"
    using assms(1) by (simp add: field_simps)
  then have up: "x < 1 / 2 ^ nat (?b - 1)"
    by (simp add: field_simps)
  from hi have "?n + 1 \<le> 2 ^ nat ?b" by simp
  then have "real_of_int (?n + 1) \<le> real_of_int (2 ^ nat ?b)"
    by (simp only: of_int_le_iff)
  then have "real_of_int ?n + 1 \<le> 2 ^ nat ?b" by simp
  with n_ge have "?y \<le> 2 ^ nat ?b" by (rule order_trans)
  then have "1 \<le> x * 2 ^ nat ?b"
    using assms(1) by (simp add: field_simps)
  then have low: "1 / 2 ^ nat ?b \<le> x"
    by (simp add: field_simps)
  have p1: "(2::real) powi (- ?b) = 1 / 2 ^ nat ?b"
    using b1 by (simp add: power_int_def field_simps)
  have p2: "(2::real) powi (- ?b + 1) = 1 / 2 ^ nat (?b - 1)"
    using b1 by (simp add: power_int_def field_simps nat_diff_distrib)
  show ?thesis unfolding e p1 p2 using low up by simp
qed

lemma expo_bounds:
  "0 < x \<Longrightarrow> 2 powi expo x \<le> x \<and> x < 2 powi (expo x + 1)"
  using expo_bounds_ge1 [of x] expo_bounds_lt1 [of x] by linarith


lemma two_powi_split: "e \<le> j \<Longrightarrow> (2::real) powi j = of_int (2 ^ nat (j - e)) * 2 powi e"
proof -
  assume "e \<le> j"
  have "(2::real) powi j = 2 powi ((j - e) + e)" by simp
  also have "\<dots> = 2 powi (j - e) * 2 powi e"
    by (rule power_int_add) simp
  also have "(2::real) powi (j - e) = 2 ^ nat (j - e)"
    using \<open>e \<le> j\<close> by (simp add: power_int_nonneg_exp)
  finally show ?thesis by simp
qed

lemma dyadic_over_quantum:
  "e \<le> j \<Longrightarrow> real_of_int k * 2 powi j / 2 powi e = of_int (k * 2 ^ nat (j - e))"
  by (simp add: two_powi_split [of e j])

text \<open>Below the normal range the quantum is fixed; inside it follows the exponent.\<close>

lemma normal_quantum:
  assumes "j < max (expo x) (- 1022) - 52" "- 1074 \<le> j"
  shows "max (expo x) (- 1022) = expo x"
  using assms by linarith

lemma mag_ge_binade:
  assumes "0 < x" "max (expo x) (- 1022) = expo x"
  shows "2 powi expo x \<le> mag x"
proof -
  let ?e = "expo x - 52"
  have q: "quantum x = 2 powi ?e" using assms(2) by (simp add: quantum_def)
  have lo: "2 powi expo x \<le> x" using expo_bounds [OF assms(1)] by blast
  have split: "(2::real) powi expo x = of_int (2 ^ 52) * 2 powi ?e"
    using two_powi_split [of ?e "expo x"] by simp
  have "real_of_int (2 ^ 52) * 2 powi ?e \<le> x" using lo split by simp
  then have "real_of_int (2 ^ 52) \<le> x / 2 powi ?e"
    by (simp add: pos_le_divide_eq)
  then have "2 ^ 52 \<le> rne (x / 2 powi ?e)" by (rule rne_ge)
  then have "real_of_int (2 ^ 52) \<le> real_of_int (rne (x / 2 powi ?e))"
    by (simp only: of_int_le_iff)
  then have "real_of_int (2 ^ 52) * 2 powi ?e \<le> real_of_int (rne (x / 2 powi ?e)) * 2 powi ?e"
    by (rule mult_right_mono) simp
  then show ?thesis unfolding mag_def q split .
qed

lemma dyadic_below_binade:
  assumes "0 \<le> k" "k \<le> 2 ^ 53" "j < E - 52"
  shows "real_of_int k * 2 powi j \<le> 2 powi E"
proof -
  have "real_of_int k \<le> real_of_int (2 ^ 53)" using assms(2) by (simp only: of_int_le_iff)
  then have "real_of_int k * 2 powi j \<le> real_of_int (2 ^ 53) * 2 powi j"
    by (rule mult_right_mono) simp
  also have "\<dots> = 2 powi (j + 53)"
    using two_powi_split [of j "j + 53"] by simp
  also have "\<dots> \<le> 2 powi E"
    using assms(3) by (intro power_int_increasing) simp_all
  finally show ?thesis .
qed

lemma mag_lower:
  assumes "0 < x" "0 \<le> k" "k \<le> 2 ^ 53" "- 1074 \<le> j" "real_of_int k * 2 powi j \<le> x"
  shows "real_of_int k * 2 powi j \<le> mag x"
proof (cases "max (expo x) (- 1022) - 52 \<le> j")
  case True
  let ?e = "max (expo x) (- 1022) - 52"
  have q: "quantum x = 2 powi ?e" by (simp add: quantum_def)
  have "real_of_int k * 2 powi j / 2 powi ?e \<le> x / 2 powi ?e"
    using assms(5) by (simp add: divide_right_mono)
  then have "real_of_int (k * 2 ^ nat (j - ?e)) \<le> x / 2 powi ?e"
    by (simp only: dyadic_over_quantum [OF True])
  then have "k * 2 ^ nat (j - ?e) \<le> rne (x / 2 powi ?e)" by (rule rne_ge)
  then have "real_of_int (k * 2 ^ nat (j - ?e)) \<le> real_of_int (rne (x / 2 powi ?e))"
    by (simp only: of_int_le_iff)
  then have ineq: "real_of_int (k * 2 ^ nat (j - ?e)) * 2 powi ?e \<le> real_of_int (rne (x / 2 powi ?e)) * 2 powi ?e"
    by (rule mult_right_mono) simp
  have eq: "real_of_int (k * 2 ^ nat (j - ?e)) * 2 powi ?e = real_of_int k * 2 powi j"
    using two_powi_split [OF True] by simp
  from ineq show ?thesis unfolding mag_def q eq .
next
  case False
  then have lt: "j < max (expo x) (- 1022) - 52" by simp
  then have n: "max (expo x) (- 1022) = expo x" using assms(4) by linarith
  have "real_of_int k * 2 powi j \<le> 2 powi expo x"
    using assms(2,3) lt n by (intro dyadic_below_binade) simp_all
  also have "\<dots> \<le> mag x" using assms(1) n by (rule mag_ge_binade)
  finally show ?thesis .
qed

lemma mag_upper:
  assumes "0 < x" "0 \<le> k" "k \<le> 2 ^ 53" "- 1074 \<le> j" "x \<le> real_of_int k * 2 powi j"
  shows "mag x \<le> real_of_int k * 2 powi j"
proof (cases "max (expo x) (- 1022) - 52 \<le> j")
  case True
  let ?e = "max (expo x) (- 1022) - 52"
  have q: "quantum x = 2 powi ?e" by (simp add: quantum_def)
  have "x / 2 powi ?e \<le> real_of_int k * 2 powi j / 2 powi ?e"
    using assms(5) by (simp add: divide_right_mono)
  then have "x / 2 powi ?e \<le> real_of_int (k * 2 ^ nat (j - ?e))"
    by (simp only: dyadic_over_quantum [OF True])
  then have "rne (x / 2 powi ?e) \<le> k * 2 ^ nat (j - ?e)" by (rule rne_le)
  then have "real_of_int (rne (x / 2 powi ?e)) \<le> real_of_int (k * 2 ^ nat (j - ?e))"
    by (simp only: of_int_le_iff)
  then have ineq: "real_of_int (rne (x / 2 powi ?e)) * 2 powi ?e \<le> real_of_int (k * 2 ^ nat (j - ?e)) * 2 powi ?e"
    by (rule mult_right_mono) simp
  have eq: "real_of_int (k * 2 ^ nat (j - ?e)) * 2 powi ?e = real_of_int k * 2 powi j"
    using two_powi_split [OF True] by simp
  from ineq show ?thesis unfolding mag_def q eq .
next
  case False
  then have lt: "j < max (expo x) (- 1022) - 52" by simp
  then have n: "max (expo x) (- 1022) = expo x" using assms(4) by linarith
  have d: "real_of_int k * 2 powi j \<le> 2 powi expo x"
    using assms(2,3) lt n by (intro dyadic_below_binade) simp_all
  have lo: "2 powi expo x \<le> x" using expo_bounds [OF assms(1)] by blast
  from d lo assms(5) have x: "x = 2 powi expo x" "real_of_int k * 2 powi j = 2 powi expo x"
    by linarith+
  let ?e = "expo x - 52"
  have q: "quantum x = 2 powi ?e" using n by (simp add: quantum_def)
  have split: "(2::real) powi expo x = of_int (2 ^ 52) * 2 powi ?e"
    using two_powi_split [of ?e "expo x"] by simp
  have "x / 2 powi ?e = real_of_int (2 ^ 52)"
    using x(1) split by (simp add: field_simps)
  then have "rne (x / 2 powi ?e) = 2 ^ 52" by (simp only: rne_of_int)
  then have "mag x = 2 powi expo x" unfolding mag_def q split by simp
  then show ?thesis using x(2) by simp
qed




lemma mag_exact:
  assumes "0 < k" "k \<le> 2 ^ 53" "- 1074 \<le> j"
  shows "mag (real_of_int k * 2 powi j) = real_of_int k * 2 powi j"
proof -
  have pos: "0 < real_of_int k * 2 powi j" using assms(1) by simp
  have k0: "0 \<le> k" using assms(1) by simp
  from mag_lower [OF pos k0 assms(2,3)] mag_upper [OF pos k0 assms(2,3)]
  show ?thesis by simp
qed

lemma round64_exact:
  assumes "0 < k" "k < 2 ^ 53" "- 1074 \<le> j" "j \<le> 971"
  shows "round64 (real_of_int k * 2 powi j) = Fin (real_of_int k * 2 powi j)"
    and "round64 (- (real_of_int k * 2 powi j)) = Fin (- (real_of_int k * 2 powi j))"
proof -
  let ?d = "real_of_int k * 2 powi j"
  have pos: "0 < ?d" using assms(1) by simp
  have m: "mag ?d = ?d" using assms by (intro mag_exact) simp_all
  have "real_of_int k < real_of_int (2 ^ 53)" using assms(2) by (simp only: of_int_less_iff)
  then have "?d < real_of_int (2 ^ 53) * 2 powi j"
    by (intro mult_strict_right_mono) simp_all
  also have "\<dots> \<le> real_of_int (2 ^ 53) * 2 powi 971"
    using assms(4) by (intro mult_left_mono power_int_increasing) simp_all
  also have "\<dots> = 2 ^ 1024" by simp
  finally have small: "?d < 2 ^ 1024" .
  show "round64 ?d = Fin ?d"
    using pos m small by (simp add: round64_def Let_def)
  show "round64 (- ?d) = Fin (- ?d)"
    using pos m small by (simp add: round64_def Let_def)
qed

lemma round64_zero: "round64 0 = Fin 0"
  by (simp add: round64_def)




lemma round64_overflow: "2 ^ 1024 \<le> x \<Longrightarrow> round64 x = PosInf"
proof -
  assume a: "2 ^ 1024 \<le> x"
  have "(0::real) < 2 ^ 1024" by simp
  with a have pos: "0 < x" by linarith
  have "real_of_int (2 ^ 53) * 2 powi 971 \<le> mag x"
    using pos a by (intro mag_lower) simp_all
  then have "2 ^ 1024 \<le> mag x" by simp
  then show ?thesis using pos by (simp add: round64_def Let_def)
qed



subsection \<open>Coordinate mapper\<close>

lemmas canvas_defs = CHART_WIDTH_def CHART_HEIGHT_def CHART_PADDING_def js_sub_def baseline_def

lemma baseline_eq: "baseline = Fin 268"
  by (simp add: canvas_defs)

lemma chartY_fin: "0 < m \<Longrightarrow> chartY (Fin v) (Fin m) = Fin (268 - v / m * 248)"
  by (simp add: chartY_def canvas_defs)

lemma chartY_nonpositive: "js_le dm (Fin 0) \<Longrightarrow> chartY v dm = Fin 268"
  by (simp add: chartY_def canvas_defs)

lemma chartX_fin: "1 < n \<Longrightarrow> chartX i n = Fin (56 + real i / real (n - 1) * 884)"
  by (simp add: chartX_def canvas_defs)

lemma chartX_single: "n \<le> 1 \<Longrightarrow> chartX i n = Fin 56"
  by (simp add: chartX_def canvas_defs)

text \<open>
  Claim C4. For more than one point, \<open>chartX\<close> is non-decreasing in the index, starts at
  the left padding (56) and reaches the right edge of the plot area (960 - 20 = 940) at
  the last index; for at most one point it is the left padding. For a finite positive
  domain maximum, \<open>chartY\<close> is non-increasing in the (finite) value and maps zero to the
  baseline (320 - 52 = 268); for a domain maximum that is not positive it is the
  baseline whatever the value.
\<close>

theorem coordinate_mapper_monotone:
  "(1 < n \<longrightarrow>
      (\<forall>i j. i \<le> j \<longrightarrow> js_le (chartX i n) (chartX j n))
      \<and> chartX 0 n = left CHART_PADDING
      \<and> chartX (n - 1) n = js_sub CHART_WIDTH (right CHART_PADDING))
   \<and> (n \<le> 1 \<longrightarrow> chartX i n = left CHART_PADDING)
   \<and> (0 < m \<longrightarrow>
      (\<forall>v1 v2. v1 \<le> v2 \<longrightarrow> js_le (chartY (Fin v2) (Fin m)) (chartY (Fin v1) (Fin m)))
      \<and> chartY (Fin 0) (Fin m) = baseline)
   \<and> (js_le dm (Fin 0) \<longrightarrow> chartY v dm = baseline)
   \<and> left CHART_PADDING = Fin 56 \<and> js_sub CHART_WIDTH (right CHART_PADDING) = Fin 940
   \<and> baseline = Fin 268"
proof -
  have pads: "left CHART_PADDING = Fin 56" "js_sub CHART_WIDTH (right CHART_PADDING) = Fin 940"
    "js_sub CHART_HEIGHT (bottom CHART_PADDING) = Fin 268"
    by (simp_all add: canvas_defs)
  have x: "1 < n \<longrightarrow> (\<forall>i j. i \<le> j \<longrightarrow> js_le (chartX i n) (chartX j n))"
    by (simp add: chartX_fin divide_right_mono)
  have x_ends: "1 < n \<longrightarrow> chartX 0 n = Fin 56 \<and> chartX (n - 1) n = Fin 940"
    by (simp add: chartX_fin)
  have x1: "n \<le> 1 \<longrightarrow> chartX i n = Fin 56"
    by (simp add: chartX_single)
  have y: "0 < m \<longrightarrow>
      (\<forall>v1 v2. v1 \<le> v2 \<longrightarrow> js_le (chartY (Fin v2) (Fin m)) (chartY (Fin v1) (Fin m)))"
    by (simp add: chartY_fin divide_right_mono)
  have y0: "0 < m \<longrightarrow> chartY (Fin 0) (Fin m) = Fin 268"
    by (simp add: chartY_fin)
  have yb: "js_le dm (Fin 0) \<longrightarrow> chartY v dm = Fin 268"
    by (simp add: chartY_nonpositive)
  show ?thesis
    unfolding pads baseline_eq
    using x x_ends x1 y y0 yb by blast
qed

theorem coordinate_mapper_monotone_witness:
  "(1::nat) < 2 \<and> js_le (chartX 0 2) (chartX 1 2) \<and> chartX 1 2 = Fin 940
   \<and> chartX 3 1 = Fin 56
   \<and> (0::real) < 20 \<and> js_le (chartY (Fin 20) (Fin 20)) (chartY (Fin 10) (Fin 20))
   \<and> chartY (Fin 0) (Fin 20) = Fin 268
   \<and> js_le (Fin (- 1)) (Fin 0) \<and> chartY (Fin 7) (Fin (- 1)) = Fin 268"
proof -
  note a = coordinate_mapper_monotone [where n = 2 and m = 20 and dm = "Fin (- 1)" and v = "Fin 7"]
  note b = coordinate_mapper_monotone [where n = 1 and i = 3 and m = 20]
  have "\<forall>i j. i \<le> j \<longrightarrow> js_le (chartX i 2) (chartX j 2)" using a by simp
  then have "js_le (chartX 0 2) (chartX 1 2)" by (simp del: One_nat_def)
  moreover have "chartX 1 2 = Fin 940" using a by simp
  moreover have "chartX 3 1 = Fin 56" using b by simp
  moreover have "\<forall>v1 v2. v1 \<le> v2 \<longrightarrow> js_le (chartY (Fin v2) (Fin 20)) (chartY (Fin v1) (Fin 20))"
    using a by simp
  then have "js_le (chartY (Fin 20) (Fin 20)) (chartY (Fin 10) (Fin 20))" by simp
  moreover have "chartY (Fin 0) (Fin 20) = Fin 268" using a by simp
  moreover have "chartY (Fin 7) (Fin (- 1)) = Fin 268" using a by simp
  ultimately show ?thesis by simp
qed

subsection \<open>Vertical position in binary64\<close>

















subsection \<open>Numeric coercion\<close>

lemma toNumber_finite: "js_Number v = Inr parsed \<Longrightarrow> \<exists>r. toNumber v = Inr (Fin r)"
  by (cases parsed) (simp_all add: toNumber_def)

lemma js_Number_raises:
  "(js_Number v = Inl TypeError)
   = ((\<exists>d. v = JSymbol d) \<or> (\<exists>kvs. v = JObject kvs \<and> ''toString'' \<in> set (map fst kvs)))"
  by (cases v) auto

lemma object_string_not_numeric: "StringToNumber ''[object Object]'' = NaN"
  by code_simp

lemmas parse_defs = StringToNumber_def trim_def is_ws_def StrDecimalLiteral_def
  StrUnsignedDecimalLiteral_def is_digit_def digit_val_def all_digits_def digits_value_def
  scale10_def

lemma parse_not_a_number: "StringToNumber ''N/A'' = NaN"
  by code_simp

lemma parse_beyond_range: "StringToNumber ''1e400'' = PosInf"
proof -
  have "StringToNumber ''1e400'' = round64 (10 ^ 400)"
    by (simp add: parse_defs)
  also have "\<dots> = PosInf" by (rule round64_overflow) simp
  finally show ?thesis .
qed

lemma parse_decimal: "StringToNumber ''12.5'' = Fin (25 / 2)"
proof -
  have "StringToNumber ''12.5'' = round64 (25 / 2)"
    by (simp add: parse_defs)
  also have "\<dots> = Fin (25 / 2)"
    using round64_exact(1) [of 25 "- 1"] by (simp add: power_int_minus)
  finally show ?thesis .
qed

text \<open>
  Claim C5, as stated, fails: \<open>Number\<close> applied to a symbol raises TypeError, and
  \<open>toNumber\<close> has no handler, so the exception leaves \<open>toNumber\<close>.
\<close>

theorem toNumber_raises_on_symbol: "toNumber (JSymbol ''id'') = Inl TypeError"
  by (simp add: toNumber_def)

text \<open>
  Claim C5, amended. \<open>toNumber\<close> raises exactly when \<open>Number(value)\<close> raises, with the same
  exception: for a symbol, and for an object that has no primitive value (one with an
  own \<open>toString\<close> property). For every other value it returns a finite number: the
  converted number when that is finite, zero otherwise. In particular undefined, null,
  NaN, both infinities, a string that is not a numeric literal or whose value is beyond
  the range of the doubles, and an object without an own \<open>toString\<close> give zero.
\<close>

theorem toNumber_raises_only_with_Number:
  "(\<forall>parsed. js_Number v = Inr parsed \<longrightarrow>
      toNumber v = Inr (if Number_isFinite parsed then parsed else Fin 0)
      \<and> (\<exists>r. toNumber v = Inr (Fin r)))
   \<and> (\<forall>e. js_Number v = Inl e \<longrightarrow> toNumber v = Inl e)
   \<and> ((js_Number v = Inl TypeError)
        = ((\<exists>d. v = JSymbol d) \<or> (\<exists>kvs. v = JObject kvs \<and> ''toString'' \<in> set (map fst kvs))))
   \<and> toNumber JUndefined = Inr (Fin 0) \<and> toNumber JNull = Inr (Fin 0)
   \<and> toNumber (JNumber NaN) = Inr (Fin 0) \<and> toNumber (JNumber PosInf) = Inr (Fin 0)
   \<and> toNumber (JNumber NegInf) = Inr (Fin 0)
   \<and> (\<not> Number_isFinite (StringToNumber s) \<longrightarrow> toNumber (JString s) = Inr (Fin 0))
   \<and> (''toString'' \<notin> set (map fst kvs) \<longrightarrow> toNumber (JObject kvs) = Inr (Fin 0))"
proof -
  have a: "\<forall>parsed. js_Number v = Inr parsed \<longrightarrow>
      toNumber v = Inr (if Number_isFinite parsed then parsed else Fin 0)
      \<and> (\<exists>r. toNumber v = Inr (Fin r))"
  proof (intro allI impI conjI)
    fix parsed assume p: "js_Number v = Inr parsed"
    then show "toNumber v = Inr (if Number_isFinite parsed then parsed else Fin 0)"
      by (simp add: toNumber_def)
    from p show "\<exists>r. toNumber v = Inr (Fin r)" by (rule toNumber_finite)
  qed
  have b: "\<forall>e. js_Number v = Inl e \<longrightarrow> toNumber v = Inl e"
    by (simp add: toNumber_def)
  have c: "toNumber JUndefined = Inr (Fin 0)" "toNumber JNull = Inr (Fin 0)"
    "toNumber (JNumber NaN) = Inr (Fin 0)" "toNumber (JNumber PosInf) = Inr (Fin 0)"
    "toNumber (JNumber NegInf) = Inr (Fin 0)"
    "\<not> Number_isFinite (StringToNumber s) \<longrightarrow> toNumber (JString s) = Inr (Fin 0)"
    "''toString'' \<notin> set (map fst kvs) \<longrightarrow> toNumber (JObject kvs) = Inr (Fin 0)"
    by (simp_all add: toNumber_def object_string_not_numeric)
  from a b js_Number_raises [of v] c show ?thesis by (intro conjI)
qed

theorem toNumber_raises_only_with_Number_witness:
  "StringToNumber ''N/A'' = NaN \<and> toNumber (JString ''N/A'') = Inr (Fin 0)
   \<and> StringToNumber ''1e400'' = PosInf \<and> toNumber (JString ''1e400'') = Inr (Fin 0)
   \<and> toNumber (JString ''12.5'') = Inr (Fin (25 / 2))
   \<and> toNumber (JObject [(''v'', JNumber (Fin 1))]) = Inr (Fin 0)
   \<and> toNumber (JObject [(''toString'', JNumber (Fin 1))]) = Inl TypeError"
proof -
  note na = toNumber_raises_only_with_Number [where v = "JString ''N/A''" and s = "''N/A''"]
  note big = toNumber_raises_only_with_Number [where v = "JString ''12.5''" and s = "''1e400''"
      and kvs = "[(''v'', JNumber (Fin 1))]"]
  note obj = toNumber_raises_only_with_Number [where v = "JObject [(''toString'', JNumber (Fin 1))]"]
  have 1: "toNumber (JString ''N/A'') = Inr (Fin 0)"
    using na parse_not_a_number by simp
  have 2: "toNumber (JString ''1e400'') = Inr (Fin 0)"
    using big parse_beyond_range by simp
  have "js_Number (JString ''12.5'') = Inr (Fin (25 / 2))"
    by (simp add: parse_decimal)
  with big have 3: "toNumber (JString ''12.5'') = Inr (Fin (25 / 2))" by simp
  have 4: "toNumber (JObject [(''v'', JNumber (Fin 1))]) = Inr (Fin 0)"
    using big by simp
  have "js_Number (JObject [(''toString'', JNumber (Fin 1))]) = Inl TypeError" by simp
  with obj have 5: "toNumber (JObject [(''toString'', JNumber (Fin 1))]) = Inl TypeError"
    by blast
  from parse_not_a_number 1 parse_beyond_range 2 3 4 5 show ?thesis by (intro conjI)
qed

subsection \<open>Series extraction\<close>

lemma extractSeries_acc:
  "foldl (\<lambda>series ch.
            (case ch of
               NotElement \<Rightarrow> series
             | Element displayName props \<Rightarrow>
                 if displayName = Some typeName then series @ [props] else series))
     acc children
   = acc @ List.map_filter (declared_as typeName) children"
  by (induction children arbitrary: acc)
     (auto simp: List.map_filter_simps declared_as_def split: child.splits)

text \<open>
  Claim C9. The extracted series are exactly the props of the children that are valid
  elements tagged with the expected category, in declaration order; every other child
  is skipped, and when no child matches the result is the empty list. The function is
  total: there is no error to return.
\<close>

theorem extractSeries_declaration_order:
  "extractSeries children typeName = List.map_filter (declared_as typeName) children
   \<and> ((\<forall>ch \<in> set children. declared_as typeName ch = None)
        \<longrightarrow> extractSeries children typeName = [])"
proof -
  have eq: "extractSeries children typeName = List.map_filter (declared_as typeName) children"
    unfolding extractSeries_def by (simp add: extractSeries_acc)
  have "(\<forall>ch \<in> set children. declared_as typeName ch = None)
        \<longrightarrow> List.map_filter (declared_as typeName) children = []"
    by (induction children) (simp_all add: List.map_filter_simps)
  with eq show ?thesis by simp
qed

theorem extractSeries_declaration_order_witness:
  "extractSeries [Element (Some ''RechartsLine'') (1::nat), NotElement, Element None 2,
      Element (Some ''RechartsBar'') 3, Element (Some ''RechartsLine'') 4] ''RechartsLine'' = [1, 4]
   \<and> list_all (\<lambda>ch. declared_as ''RechartsLine'' ch = None)
         [Element (Some ''XAxis'') (1::nat), NotElement]
   \<and> extractSeries [Element (Some ''XAxis'') (1::nat), NotElement] ''RechartsLine'' = []"
proof -
  have a: "extractSeries [Element (Some ''RechartsLine'') (1::nat), NotElement, Element None 2,
      Element (Some ''RechartsBar'') 3, Element (Some ''RechartsLine'') 4] ''RechartsLine'' = [1, 4]"
    using extractSeries_declaration_order [of "[Element (Some ''RechartsLine'') (1::nat), NotElement,
      Element None 2, Element (Some ''RechartsBar'') 3, Element (Some ''RechartsLine'') 4]"
      "''RechartsLine''"]
    by (simp add: List.map_filter_simps declared_as_def)
  have h: "\<forall>ch \<in> set [Element (Some ''XAxis'') (1::nat), NotElement].
         declared_as ''RechartsLine'' ch = None"
    by (simp add: declared_as_def)
  have b: "extractSeries [Element (Some ''XAxis'') (1::nat), NotElement] ''RechartsLine'' = []"
    using extractSeries_declaration_order [of "[Element (Some ''XAxis'') (1::nat), NotElement]"
      "''RechartsLine''"] h by blast
  show ?thesis using a h b by (simp add: list_all_iff)
qed

subsection \<open>Bar width\<close>

lemma usableWidth_eq: "usableWidth = Fin 884"
  by (simp add: usableWidth_def canvas_defs)

lemma Math_max_pair_fin: "Math_max [Fin a, Fin b] = Fin (max a b)"
  by (simp add: Math_max_def max2_def max_def)

lemma groupWidth_fin:
  "groupWidth data = Fin (if data = [] then 884 else 884 / real (length data))"
  by (simp add: groupWidth_def usableWidth_eq)

lemma barWidth_fin:
  "bars \<noteq> [] \<Longrightarrow>
   barWidth data bars
   = Fin (max ((if data = [] then 884 else 884 / real (length data)) / real (length bars + 1)) 8)"
  by (simp add: barWidth_def groupWidth_fin Math_max_pair_fin del: of_nat_Suc of_nat_add)

text \<open>
  Claim C7. With at least one bar series the bar width is
  \<open>Math.max(groupWidth / (seriesCount + 1), 8)\<close> and therefore at least 8; the group
  width is the usable width (884) divided by the number of data points, and the whole
  usable width for an empty dataset, where the division is guarded.
\<close>

theorem bar_width_minimum:
  "bars \<noteq> [] \<longrightarrow>
     barWidth data bars = Math_max [js_div (groupWidth data) (Fin (real (length bars + 1))), Fin 8]
     \<and> js_le (Fin 8) (barWidth data bars)
     \<and> (data \<noteq> [] \<longrightarrow>
          groupWidth data = js_div usableWidth (Fin (real (length data)))
          \<and> barWidth data bars
            = Fin (max (884 / real (length data) / real (length bars + 1)) 8))
     \<and> (data = [] \<longrightarrow>
          groupWidth data = usableWidth
          \<and> barWidth data bars = Fin (max (884 / real (length bars + 1)) 8))"
proof
  assume b: "bars \<noteq> []"
  have 1: "barWidth data bars
           = Math_max [js_div (groupWidth data) (Fin (real (length bars + 1))), Fin 8]"
    using b by (simp add: barWidth_def)
  have 2: "js_le (Fin 8) (barWidth data bars)"
    using b by (simp add: barWidth_fin del: of_nat_Suc of_nat_add)
  have 3: "data \<noteq> [] \<longrightarrow>
          groupWidth data = js_div usableWidth (Fin (real (length data)))
          \<and> barWidth data bars
            = Fin (max (884 / real (length data) / real (length bars + 1)) 8)"
    using b by (simp add: barWidth_fin groupWidth_def del: of_nat_Suc of_nat_add)
  have 4: "data = [] \<longrightarrow>
          groupWidth data = usableWidth
          \<and> barWidth data bars = Fin (max (884 / real (length bars + 1)) 8)"
    using b by (simp add: barWidth_fin groupWidth_def del: of_nat_Suc of_nat_add)
  show "barWidth data bars = Math_max [js_div (groupWidth data) (Fin (real (length bars + 1))), Fin 8]
     \<and> js_le (Fin 8) (barWidth data bars)
     \<and> (data \<noteq> [] \<longrightarrow>
          groupWidth data = js_div usableWidth (Fin (real (length data)))
          \<and> barWidth data bars
            = Fin (max (884 / real (length data) / real (length bars + 1)) 8))
     \<and> (data = [] \<longrightarrow>
          groupWidth data = usableWidth
          \<and> barWidth data bars = Fin (max (884 / real (length bars + 1)) 8))"
    using 1 2 3 4 by blast
qed

theorem bar_width_minimum_witness:
  "[series_v] \<noteq> [] \<and> barWidth [[], []] [series_v] = Fin 221
   \<and> js_le (Fin 8) (barWidth (replicate 200 []) [series_v])
   \<and> barWidth (replicate 200 []) [series_v] = Fin 8"
proof -
  note two = bar_width_minimum [of "[series_v]" "[[], []]"]
  note many = bar_width_minimum [of "[series_v]" "replicate 200 []"]
  have "barWidth [[], []] [series_v]
        = Fin (max (884 / real (length [[], []::datum]) / real (length [series_v] + 1)) 8)"
    using two by blast
  then have a: "barWidth [[], []] [series_v] = Fin 221" by simp
  have "barWidth (replicate 200 []) [series_v]
        = Fin (max (884 / real (length (replicate 200 ([]::datum))) / real (length [series_v] + 1)) 8)"
  proof -
    have "replicate 200 ([]::datum) \<noteq> []" by simp
    with many show ?thesis by blast
  qed
  then have b: "barWidth (replicate 200 []) [series_v] = Fin 8" by simp
  have c: "js_le (Fin 8) (barWidth (replicate 200 []) [series_v])"
    using many by blast
  show ?thesis using a b c by simp
qed

subsection \<open>Domain calculation\<close>

lemma toNumber_Inr_fin: "toNumber v = Inr n \<Longrightarrow> \<exists>r. n = Fin r"
  by (cases "js_Number v"; cases n) (auto simp: toNumber_def split: if_splits)

lemma traverse_all2: "traverse f xs = Inr ys \<Longrightarrow> list_all2 (\<lambda>x y. f x = Inr y) xs ys"
  by (induction xs arbitrary: ys) (auto split: sum.splits)

lemma traverse_total:
  "(\<forall>x \<in> set xs. \<exists>y. f x = Inr y) \<Longrightarrow> \<exists>ys. traverse f xs = Inr ys"
  by (induction xs) auto

lemma all2_left: "list_all2 P xs ys \<Longrightarrow> x \<in> set xs \<Longrightarrow> \<exists>y \<in> set ys. P x y"
  by (induction rule: list_all2_induct) auto

lemma all2_right: "list_all2 P xs ys \<Longrightarrow> y \<in> set ys \<Longrightarrow> \<exists>x \<in> set xs. P x y"
  by (induction rule: list_all2_induct) auto

lemma foldl_max2_fin:
  "(\<forall>x \<in> set xs. \<exists>r. x = Fin r) \<Longrightarrow>
   \<exists>m. foldl max2 (Fin a) xs = Fin m \<and> a \<le> m
       \<and> (\<forall>r. Fin r \<in> set xs \<longrightarrow> r \<le> m) \<and> (m = a \<or> Fin m \<in> set xs)"
proof (induction xs arbitrary: a)
  case Nil
  then show ?case by simp
next
  case (Cons x xs)
  then obtain r where x: "x = Fin r" by auto
  have step: "max2 (Fin a) (Fin r) = Fin (max a r)"
    by (simp add: max2_def max_def)
  from Cons.prems have "\<forall>x \<in> set xs. \<exists>r. x = Fin r" by simp
  from Cons.IH [OF this, of "max a r"] obtain m where
    m: "foldl max2 (Fin (max a r)) xs = Fin m" "max a r \<le> m"
       "\<forall>r. Fin r \<in> set xs \<longrightarrow> r \<le> m" "m = max a r \<or> Fin m \<in> set xs"
    by blast
  have "foldl max2 (Fin a) (x # xs) = Fin m" using m(1) x step by simp
  moreover have "a \<le> m" using m(2) by simp
  moreover have "\<forall>q. Fin q \<in> set (x # xs) \<longrightarrow> q \<le> m" using m(2,3) x by auto
  moreover have "m = a \<or> Fin m \<in> set (x # xs)" using m(4) x by (auto simp: max_def split: if_splits)
  ultimately show ?case by blast
qed

lemma Math_max_floor1:
  "(\<forall>x \<in> set xs. \<exists>r. x = Fin r) \<Longrightarrow>
   \<exists>m. Math_max (Fin 1 # xs) = Fin m \<and> 1 \<le> m
       \<and> (\<forall>r. Fin r \<in> set xs \<longrightarrow> r \<le> m) \<and> (m = 1 \<or> Fin m \<in> set xs)"
  using foldl_max2_fin [of xs 1] by (simp add: Math_max_def max2_def)


lemma traverse_raises:
  "x \<in> set xs \<Longrightarrow> f x = Inl e \<Longrightarrow> traverse f xs = Inl TypeError"
proof (induction xs)
  case Nil
  then show ?case by simp
next
  case (Cons y ys)
  show ?case
  proof (cases "f y")
    case (Inl e')
    then show ?thesis by (cases e') simp
  next
    case (Inr b)
    with Cons have "traverse f ys = Inl TypeError" by auto
    with Inr show ?thesis by simp
  qed
qed

text \<open>The values the domain is computed from, when no conversion raises.\<close>

lemma domain_cells:
  assumes "\<forall>row \<in> set data. \<forall>s \<in> set series. \<exists>n. toNumber (get_field row (dataKey s)) = Inr n"
  shows "\<exists>vss. traverse (\<lambda>row. traverse (\<lambda>s. toNumber (get_field row (dataKey s))) series) data
               = Inr vss
           \<and> (\<forall>v \<in> set (concat vss). \<exists>row \<in> set data. \<exists>s \<in> set series.
                 toNumber (get_field row (dataKey s)) = Inr v)
           \<and> (\<forall>row \<in> set data. \<forall>s \<in> set series. \<exists>v \<in> set (concat vss).
                 toNumber (get_field row (dataKey s)) = Inr v)"
proof -
  let ?inner = "\<lambda>row. traverse (\<lambda>s. toNumber (get_field row (dataKey s))) series"
  have inner: "\<forall>row \<in> set data. \<exists>vs. ?inner row = Inr vs"
  proof
    fix row assume "row \<in> set data"
    with assms have "\<forall>s \<in> set series. \<exists>y. toNumber (get_field row (dataKey s)) = Inr y"
      by blast
    then show "\<exists>vs. ?inner row = Inr vs" by (rule traverse_total)
  qed
  then obtain vss where vss: "traverse ?inner data = Inr vss"
    using traverse_total [of data ?inner] by blast
  then have rows: "list_all2 (\<lambda>row vs. ?inner row = Inr vs) data vss"
    by (rule traverse_all2)
  have from_cell: "\<exists>row \<in> set data. \<exists>s \<in> set series. toNumber (get_field row (dataKey s)) = Inr v"
    if "v \<in> set (concat vss)" for v
  proof -
    from that obtain vs where vs: "vs \<in> set vss" "v \<in> set vs" by auto
    from all2_right [OF rows vs(1)] obtain row where
      row: "row \<in> set data" "?inner row = Inr vs" by blast
    from all2_right [OF traverse_all2 [OF row(2)] vs(2)] obtain s where
      "s \<in> set series" "toNumber (get_field row (dataKey s)) = Inr v" by blast
    with row(1) show ?thesis by blast
  qed
  have to_cell: "\<exists>v \<in> set (concat vss). toNumber (get_field row (dataKey s)) = Inr v"
    if "row \<in> set data" "s \<in> set series" for row s
  proof -
    from all2_left [OF rows that(1)] obtain vs where
      vs: "vs \<in> set vss" "?inner row = Inr vs" by blast
    from all2_left [OF traverse_all2 [OF vs(2)] that(2)] obtain v where
      "v \<in> set vs" "toNumber (get_field row (dataKey s)) = Inr v" by blast
    with vs(1) show ?thesis by auto
  qed
  show ?thesis using vss from_cell to_cell by blast
qed

lemma domain_raises:
  assumes "row \<in> set data" "s \<in> set series" "toNumber (get_field row (dataKey s)) = Inl e"
  shows "maxValue_of data series = Inl TypeError"
proof -
  have "traverse (\<lambda>s. toNumber (get_field row (dataKey s))) series = Inl TypeError"
    using assms(2,3) by (rule traverse_raises)
  with assms(1) have
    "traverse (\<lambda>row. traverse (\<lambda>s. toNumber (get_field row (dataKey s))) series) data
     = Inl TypeError"
    by (rule traverse_raises)
  then show ?thesis by (simp add: maxValue_of_def)
qed

lemma dataKey_series_v: "dataKey series_v = ''v''"
  by (simp add: series_v_def)

lemmas eval_defs = maxValue_of_def get_field_def toNumber_def Math_max_def max2_def series_v_def

text \<open>
  Claim C3, as stated, fails: not every dataset has a domain. When the conversion of a
  referenced field raises, here for a symbol, the computation of \<open>maxValue\<close> raises.
\<close>

theorem domain_raises_on_symbol:
  "maxValue_of [[(''v'', JNumber (Fin 10))], [(''v'', JSymbol ''id'')]] [series_v] = Inl TypeError"
  by (simp add: eval_defs)

text \<open>
  Claim C3, amended. For every dataset and series list (empty ones included) whose
  referenced fields all coerce, the computed domain is a finite number \<open>m\<close> with
  \<open>1 \<le> m\<close>; it bounds the coerced value of every (datum, series) pair and is either 1 or
  one of these values, that is, it is their maximum floored at 1; for an empty dataset
  or an empty series list it is exactly 1. When the conversion of some referenced field
  raises, no domain is computed: the computation raises TypeError.
\<close>

theorem domain_is_floored_maximum:
  "((\<forall>row \<in> set data. \<forall>s \<in> set series. \<exists>n. toNumber (get_field row (dataKey s)) = Inr n) \<longrightarrow>
     (\<exists>m. maxValue_of data series = Inr (Fin m)
        \<and> 1 \<le> m
        \<and> (\<forall>row \<in> set data. \<forall>s \<in> set series.
              \<exists>r. toNumber (get_field row (dataKey s)) = Inr (Fin r) \<and> r \<le> m)
        \<and> (m = 1 \<or> (\<exists>row \<in> set data. \<exists>s \<in> set series.
                        toNumber (get_field row (dataKey s)) = Inr (Fin m)))
        \<and> (data = [] \<or> series = [] \<longrightarrow> m = 1)))
   \<and> ((\<exists>row \<in> set data. \<exists>s \<in> set series. \<exists>e. toNumber (get_field row (dataKey s)) = Inl e) \<longrightarrow>
        maxValue_of data series = Inl TypeError)"
proof (intro conjI impI)
  assume ok: "\<forall>row \<in> set data. \<forall>s \<in> set series. \<exists>n. toNumber (get_field row (dataKey s)) = Inr n"
  from domain_cells [OF ok] obtain vss where
    vss: "traverse (\<lambda>row. traverse (\<lambda>s. toNumber (get_field row (dataKey s))) series) data
            = Inr vss"
    and from_cell: "\<forall>v \<in> set (concat vss). \<exists>row \<in> set data. \<exists>s \<in> set series.
                 toNumber (get_field row (dataKey s)) = Inr v"
    and to_cell: "\<forall>row \<in> set data. \<forall>s \<in> set series. \<exists>v \<in> set (concat vss).
                 toNumber (get_field row (dataKey s)) = Inr v"
    by blast
  have fin: "\<forall>v \<in> set (concat vss). \<exists>r. v = Fin r"
    using from_cell toNumber_Inr_fin by blast
  from Math_max_floor1 [OF fin] obtain m where
    m: "Math_max (Fin 1 # concat vss) = Fin m" "1 \<le> m"
       "\<forall>r. Fin r \<in> set (concat vss) \<longrightarrow> r \<le> m" "m = 1 \<or> Fin m \<in> set (concat vss)"
    by blast
  have val: "maxValue_of data series = Inr (Fin m)"
    using vss m(1) by (simp add: maxValue_of_def)
  have ub: "\<forall>row \<in> set data. \<forall>s \<in> set series.
            \<exists>r. toNumber (get_field row (dataKey s)) = Inr (Fin r) \<and> r \<le> m"
  proof (intro ballI)
    fix row s assume "row \<in> set data" "s \<in> set series"
    with to_cell obtain v where v: "v \<in> set (concat vss)"
      "toNumber (get_field row (dataKey s)) = Inr v" by blast
    with fin obtain r where "v = Fin r" by blast
    with v m(3) show "\<exists>r. toNumber (get_field row (dataKey s)) = Inr (Fin r) \<and> r \<le> m"
      by blast
  qed
  have att: "m = 1 \<or> (\<exists>row \<in> set data. \<exists>s \<in> set series.
                      toNumber (get_field row (dataKey s)) = Inr (Fin m))"
    using m(4) from_cell by blast
  have empty: "data = [] \<or> series = [] \<longrightarrow> m = 1"
    using att by auto
  show "\<exists>m. maxValue_of data series = Inr (Fin m)
      \<and> 1 \<le> m
      \<and> (\<forall>row \<in> set data. \<forall>s \<in> set series.
            \<exists>r. toNumber (get_field row (dataKey s)) = Inr (Fin r) \<and> r \<le> m)
      \<and> (m = 1 \<or> (\<exists>row \<in> set data. \<exists>s \<in> set series.
                      toNumber (get_field row (dataKey s)) = Inr (Fin m)))
      \<and> (data = [] \<or> series = [] \<longrightarrow> m = 1)"
    using val m(2) ub att empty by blast
next
  assume "\<exists>row \<in> set data. \<exists>s \<in> set series. \<exists>e. toNumber (get_field row (dataKey s)) = Inl e"
  then show "maxValue_of data series = Inl TypeError"
    using domain_raises by blast
qed

theorem domain_is_floored_maximum_witness:
  "list_all (\<lambda>row. list_all (\<lambda>s. \<exists>n. toNumber (get_field row (dataKey s)) = Inr n) [series_v])
     [[(''label'', JString ''Mon''), (''v'', JNumber (Fin 10))],
      [(''label'', JString ''Tue''), (''v'', JNumber (Fin 20))]]
   \<and> maxValue_of [[(''label'', JString ''Mon''), (''v'', JNumber (Fin 10))],
                   [(''label'', JString ''Tue''), (''v'', JNumber (Fin 20))]] [series_v]
       = Inr (Fin 20)
   \<and> maxValue_of [] [series_v] = Inr (Fin 1)
   \<and> maxValue_of [[(''v'', JObject [(''toString'', JNumber (Fin 1))])]] [series_v]
       = Inl TypeError"
proof -
  let ?D = "[[(''label'', JString ''Mon''), (''v'', JNumber (Fin 10))],
             [(''label'', JString ''Tue''), (''v'', JNumber (Fin 20))]]"
  let ?B = "[[(''v'', JObject [(''toString'', JNumber (Fin 1))])]]"
  have h: "\<forall>row \<in> set ?D. \<forall>s \<in> set [series_v].
             \<exists>n. toNumber (get_field row (dataKey s)) = Inr n"
    by (simp add: get_field_def dataKey_series_v toNumber_def)
  from domain_is_floored_maximum [of ?D "[series_v]"] h
  obtain m where m: "maxValue_of ?D [series_v] = Inr (Fin m)" "1 \<le> m"
    "m = 1 \<or> (\<exists>row \<in> set ?D. \<exists>s \<in> set [series_v].
               toNumber (get_field row (dataKey s)) = Inr (Fin m))"
    "\<forall>row \<in> set ?D. \<forall>s \<in> set [series_v].
            \<exists>r. toNumber (get_field row (dataKey s)) = Inr (Fin r) \<and> r \<le> m"
    by blast
  from m(4) have "20 \<le> m" by (simp add: get_field_def dataKey_series_v toNumber_def)
  moreover from m(3) have "m = 1 \<or> m = 10 \<or> m = 20"
    by (simp add: get_field_def dataKey_series_v toNumber_def)
  ultimately have "m = 20" by linarith
  with m(1) have a: "maxValue_of ?D [series_v] = Inr (Fin 20)" by simp
  have "\<forall>row \<in> set ([]::datum list). \<forall>s \<in> set [series_v].
          \<exists>n. toNumber (get_field row (dataKey s)) = Inr n"
    by simp
  with domain_is_floored_maximum [of "[]" "[series_v]"]
  have b: "maxValue_of [] [series_v] = Inr (Fin 1)" by auto
  have "\<exists>row \<in> set ?B. \<exists>s \<in> set [series_v]. \<exists>e. toNumber (get_field row (dataKey s)) = Inl e"
    by (simp add: get_field_def dataKey_series_v toNumber_def)
  with domain_is_floored_maximum [of ?B "[series_v]"]
  have c: "maxValue_of ?B [series_v] = Inl TypeError" by blast
  show ?thesis using h a b c by (simp add: list_all_iff)
qed


subsection \<open>Bar geometry\<close>

lemma padding_times_two: "js_times (padding_object CHART_PADDING) (JNumber (Fin 2)) = Inr NaN"
proof -
  have "StringToNumber ''[object Object]'' = NaN" by code_simp
  then show ?thesis by (simp add: js_times_def padding_object_def)
qed

lemma bar_height_NaN: "js_gt maxValue (Fin 0) \<Longrightarrow> bar_height v maxValue = Inr NaN"
  by (simp add: bar_height_def padding_times_two js_sub_def CHART_HEIGHT_def)


text \<open>
  Claim C1 does not hold of the code. The height is computed from
  \<open>CHART_HEIGHT - CHART_PADDING * 2\<close>, where \<open>CHART_PADDING\<close> is the padding object, not
  a number: the product is NaN, and so are the height and the top edge of every bar.
  For one datum with \<open>v = 10\<close> and one bar series on \<open>v\<close> the claim gives height 248 and
  top edge 20.
\<close>

theorem bar_height_is_NaN:
  "BarChart [[(''v'', JNumber (Fin 10))]] [Element (Some ''RechartsBar'') series_v]
   = Inr [[\<lparr>rect_x = Fin 58, rect_y = NaN, rect_width = Fin 442, rect_height = NaN,
            value_label = Some \<lparr>label_x = Fin 279, label_y = NaN, label_text = Fin 10\<rparr>\<rparr>]]"
proof -
  have bars: "extractSeries [Element (Some ''RechartsBar'') series_v] ''RechartsBar'' = [series_v]"
    by (simp add: extractSeries_def)
  have mv: "maxValue_of [[(''v'', JNumber (Fin 10))]] [series_v] = Inr (Fin 10)"
    by (simp add: eval_defs)
  have w: "barWidth [[(''v'', JNumber (Fin 10))]] [series_v] = Fin 442"
    by (simp add: barWidth_fin)
  have cell: "bar_cell [[(''v'', JNumber (Fin 10))]] [series_v] (Fin 10) 0 [(''v'', JNumber (Fin 10))] 0 series_v
    = Inr \<lparr>rect_x = Fin 58, rect_y = NaN, rect_width = Fin 442, rect_height = NaN,
            value_label = Some \<lparr>label_x = Fin 279, label_y = NaN, label_text = Fin 10\<rparr>\<rparr>"
    by (simp add: bar_cell_def w bar_height_NaN js_gt_def groupWidth_fin baseline_eq js_sub_def
        Math_max_def max2_def CHART_PADDING_def dataKey_series_v get_field_def toNumber_def Let_def)
  show ?thesis
    by (simp add: BarChart_def bars mv cell)
qed

subsection \<open>Bar value labels\<close>







subsection \<open>Horizontal ticks\<close>

lemma stride_covers:
  assumes "0 < L" "L < n"
  shows "n \<le> L * nat \<lceil>real n / real L\<rceil>"
proof -
  have up: "real n / real L \<le> real (nat \<lceil>real n / real L\<rceil>)"
    by (rule real_nat_ceiling_ge)
  have pos: "0 < real L" using assms(1) by simp
  from up pos have "real n \<le> real (nat \<lceil>real n / real L\<rceil>) * real L"
    by (simp only: pos_divide_le_eq)
  then have "real n \<le> real (L * nat \<lceil>real n / real L\<rceil>)"
    by (simp only: of_nat_mult mult.commute)
  then show ?thesis by (simp only: of_nat_le_iff)
qed

lemma stride_card:
  assumes "0 < L" "L < n"
  shows "card {i. i < n \<and> i mod nat \<lceil>real n / real L\<rceil> = 0} \<le> L"
proof -
  let ?s = "nat \<lceil>real n / real L\<rceil>"
  let ?A = "{i. i < n \<and> i mod ?s = 0}"
  have cover: "n \<le> L * ?s" using assms by (rule stride_covers)
  have inj: "inj_on (\<lambda>i. i div ?s) ?A"
  proof (rule inj_onI)
    fix i j assume a: "i \<in> ?A" "j \<in> ?A" and e: "i div ?s = j div ?s"
    from a have mi: "i mod ?s = 0" and mj: "j mod ?s = 0" by blast+
    have "i = ?s * (i div ?s)" using mi mult_div_mod_eq [of ?s i] by (simp only: add_0_right)
    moreover have "j = ?s * (j div ?s)" using mj mult_div_mod_eq [of ?s j] by (simp only: add_0_right)
    ultimately show "i = j" using e by (simp only:)
  qed
  have img: "(\<lambda>i. i div ?s) ` ?A \<subseteq> {..<L}"
  proof
    fix k assume "k \<in> (\<lambda>i. i div ?s) ` ?A"
    then obtain i where i: "i < n" "k = i div ?s" by auto
    with cover have "i < L * ?s" by simp
    then have "i div ?s < L" by (rule less_mult_imp_div_less)
    with i(2) show "k \<in> {..<L}" by simp
  qed
  have "card ?A \<le> card {..<L}"
    using inj img by (rule card_inj_on_le) simp
  then show ?thesis by simp
qed

lemma tick_count_indices:
  "length (filter (\<lambda>t. t \<noteq> None) (xTicks fmt data))
   = card {i. i < length data \<and> shouldRenderTick i (length data)}"
proof -
  let ?n = "length data"
  have "filter (\<lambda>t. t \<noteq> None) (xTicks fmt data)
        = map (\<lambda>index. Some (chartX index ?n, getBucketLabel fmt (data ! index) index))
            (filter (\<lambda>i. shouldRenderTick i ?n) [0..<?n])"
    unfolding xTicks_def by (induction "[0..<?n]") (auto simp: filter_map comp_def)
  then have "length (filter (\<lambda>t. t \<noteq> None) (xTicks fmt data))
        = length (filter (\<lambda>i. shouldRenderTick i ?n) [0..<?n])"
    by simp
  also have "\<dots> = card {i. i < ?n \<and> shouldRenderTick i ?n}"
    by (simp add: length_filter_conv_card cong: conj_cong)
  finally show ?thesis .
qed


lemma shouldRenderTick_small: "tot \<le> X_LABEL_LIMIT \<Longrightarrow> shouldRenderTick i tot"
  by (simp add: shouldRenderTick_def)

lemma shouldRenderTick_large:
  "X_LABEL_LIMIT < tot \<Longrightarrow>
   shouldRenderTick i tot
   = (i mod nat \<lceil>real tot / real X_LABEL_LIMIT\<rceil> = 0 \<or> i = tot - 1)"
  by (simp add: shouldRenderTick_def Let_def)

lemma tick_count_bound:
  "card {i. i < n \<and> shouldRenderTick i n} \<le> X_LABEL_LIMIT + 1"
proof (cases "n \<le> X_LABEL_LIMIT")
  case True
  have "card {i. i < n \<and> shouldRenderTick i n} \<le> card {..<n}"
    by (rule card_mono) auto
  with True show ?thesis by simp
next
  case False
  then have big: "X_LABEL_LIMIT < n" by simp
  have pos: "0 < X_LABEL_LIMIT" by (simp add: X_LABEL_LIMIT_def)
  let ?s = "nat \<lceil>real n / real X_LABEL_LIMIT\<rceil>"
  let ?A = "{i. i < n \<and> i mod ?s = 0}"
  have fin: "finite ?A" by simp
  have "{i. i < n \<and> shouldRenderTick i n} \<subseteq> insert (n - 1) ?A"
    using big by (auto simp: shouldRenderTick_large)
  then have "card {i. i < n \<and> shouldRenderTick i n} \<le> card (insert (n - 1) ?A)"
    using fin by (intro card_mono) simp_all
  also have "\<dots> \<le> card ?A + 1"
    using fin by (simp add: card_insert_if)
  also have "\<dots> \<le> X_LABEL_LIMIT + 1"
    using stride_card [OF pos big] by simp
  finally show ?thesis .
qed

text \<open>
  Claim C2. With the label limit \<open>L = X_LABEL_LIMIT\<close>: a dataset of at most \<open>L\<close> points
  has a tick at every index; a longer one has, with \<open>stride = ceil(total / L)\<close>, a tick
  at an index exactly when \<open>index % stride = 0\<close> or the index is the last one. The number
  of ticks rendered never exceeds \<open>L + 1\<close>, and the last index of a non-empty dataset is
  always ticked.
\<close>

theorem horizontal_tick_selection:
  "(length data \<le> X_LABEL_LIMIT \<longrightarrow> (\<forall>i < length data. shouldRenderTick i (length data)))
   \<and> (X_LABEL_LIMIT < length data \<longrightarrow>
        (\<forall>i. shouldRenderTick i (length data)
             = (i mod nat \<lceil>real (length data) / real X_LABEL_LIMIT\<rceil> = 0
                \<or> i = length data - 1)))
   \<and> length (filter (\<lambda>t. t \<noteq> None) (xTicks fmt data)) \<le> X_LABEL_LIMIT + 1
   \<and> (data \<noteq> [] \<longrightarrow>
        shouldRenderTick (length data - 1) (length data)
        \<and> xTicks fmt data ! (length data - 1) \<noteq> None)"
proof -
  let ?n = "length data"
  have small: "?n \<le> X_LABEL_LIMIT \<longrightarrow> (\<forall>i < ?n. shouldRenderTick i ?n)"
    by (simp add: shouldRenderTick_small)
  have large: "X_LABEL_LIMIT < ?n \<longrightarrow>
        (\<forall>i. shouldRenderTick i ?n
             = (i mod nat \<lceil>real ?n / real X_LABEL_LIMIT\<rceil> = 0 \<or> i = ?n - 1))"
  proof (intro impI allI)
    fix i assume "X_LABEL_LIMIT < ?n"
    then show "shouldRenderTick i ?n
             = (i mod nat \<lceil>real ?n / real X_LABEL_LIMIT\<rceil> = 0 \<or> i = ?n - 1)"
      by (rule shouldRenderTick_large)
  qed
  have count: "length (filter (\<lambda>t. t \<noteq> None) (xTicks fmt data)) \<le> X_LABEL_LIMIT + 1"
    unfolding tick_count_indices by (rule tick_count_bound)
  have last_tick: "shouldRenderTick (?n - 1) ?n"
  proof (cases "?n \<le> X_LABEL_LIMIT")
    case True
    then show ?thesis by (rule shouldRenderTick_small)
  next
    case False
    then have "X_LABEL_LIMIT < ?n" by simp
    then show ?thesis by (simp only: shouldRenderTick_large simp_thms)
  qed
  have last_some: "data \<noteq> [] \<longrightarrow>
        shouldRenderTick (?n - 1) ?n \<and> xTicks fmt data ! (?n - 1) \<noteq> None"
    using last_tick by (simp add: xTicks_def)
  from small large count last_some show ?thesis
    by - (intro conjI, assumption+)
qed

theorem horizontal_tick_selection_witness:
  "X_LABEL_LIMIT < length (replicate 20 ([]::datum))
   \<and> nat \<lceil>real (length (replicate 20 ([]::datum))) / real X_LABEL_LIMIT\<rceil> = 4
   \<and> shouldRenderTick 0 20 \<and> shouldRenderTick 16 20 \<and> \<not> shouldRenderTick 17 20
   \<and> shouldRenderTick 19 20
   \<and> length (filter (\<lambda>t. t \<noteq> None) (xTicks (\<lambda>r. []) (replicate 20 []))) \<le> 7
   \<and> length (replicate 3 ([]::datum)) \<le> X_LABEL_LIMIT \<and> shouldRenderTick 1 3"
proof -
  note t = horizontal_tick_selection [of "replicate 20 ([]::datum)" "\<lambda>r. []"]
  note u = horizontal_tick_selection [of "replicate 3 ([]::datum)" "\<lambda>r. []"]
  have len: "length (replicate 20 ([]::datum)) = 20" by (rule length_replicate)
  have len3: "length (replicate 3 ([]::datum)) = 3" by (rule length_replicate)
  have big: "X_LABEL_LIMIT < length (replicate 20 ([]::datum))"
    unfolding len by (simp add: X_LABEL_LIMIT_def)
  have stride: "nat \<lceil>real (length (replicate 20 ([]::datum))) / real X_LABEL_LIMIT\<rceil> = 4"
    unfolding len by (simp add: X_LABEL_LIMIT_def)
  have stride20: "nat \<lceil>real (20::nat) / real X_LABEL_LIMIT\<rceil> = 4"
    by (simp add: X_LABEL_LIMIT_def)
  have lim: "X_LABEL_LIMIT + 1 = 7" by (simp add: X_LABEL_LIMIT_def)
  from t [THEN conjunct2, THEN conjunct1, THEN mp, OF big]
  have rule20: "shouldRenderTick i 20 = (i mod 4 = 0 \<or> i = 20 - 1)" for i
    unfolding len stride20 by (rule spec)
  have p0: "shouldRenderTick 0 20" unfolding rule20 by simp
  have p16: "shouldRenderTick 16 20" unfolding rule20 by simp
  have p17: "\<not> shouldRenderTick 17 20" unfolding rule20 by simp
  have p19: "shouldRenderTick 19 20" unfolding rule20 by simp
  have count: "length (filter (\<lambda>t. t \<noteq> None) (xTicks (\<lambda>r. []) (replicate 20 []))) \<le> 7"
    using t [THEN conjunct2, THEN conjunct2, THEN conjunct1] unfolding lim .
  have small: "length (replicate 3 ([]::datum)) \<le> X_LABEL_LIMIT"
    unfolding len3 by (simp add: X_LABEL_LIMIT_def)
  from u [THEN conjunct1, THEN mp, OF small]
  have "\<forall>i<3. shouldRenderTick i 3" unfolding len3 .
  then have p1: "shouldRenderTick 1 3" by simp
  from big stride p0 p16 p17 p19 count small p1 show ?thesis
    by (intro conjI)
qed

subsection \<open>Axis labels\<close>



end
